theory Spec2Isabelle
  imports Main
begin

section \<open>Data model\<close>

text \<open>
  The program is \<^verbatim>\<open>task3/solution.py\<close>. Timestamps are Python integers (unbounded),
  an interval is a tuple \<^verbatim>\<open>(start, end)\<close>, and the input of \<^verbatim>\<open>appearance\<close> is a
  dictionary from strings to lists of integers. The only operation of the source that can
  raise is list indexing, so indexing is modelled with an explicit check and every function
  that indexes returns a sum whose left injection is the exception.
\<close>

datatype py_error = IndexError

type_synonym interval = "int \<times> int"

text \<open>\<^verbatim>\<open>xs[i]\<close> for an index that is never negative in this program.\<close>

definition py_get :: "'a list \<Rightarrow> nat \<Rightarrow> py_error + 'a" where
  "py_get xs i = (if i < length xs then Inr (xs ! i) else Inl IndexError)"

text \<open>\<^verbatim>\<open>d.get(k, default)\<close>.\<close>

definition dict_get :: "('k \<rightharpoonup> 'v) \<Rightarrow> 'k \<Rightarrow> 'v \<Rightarrow> 'v" where
  "dict_get d k dflt = (case d k of None \<Rightarrow> dflt | Some v \<Rightarrow> v)"

section \<open>The interval parser\<close>

text \<open>
  \<^verbatim>\<open>
  intervals = []
  for i in range(0, len(timestamps), 2):
      if i + 1 < len(timestamps):
          start, end = timestamps[i], timestamps[i+1]
          if start < end:
              intervals.append((start, end))
  return intervals
  \<close>
  The loop variable runs over 0, 2, 4, ... below the length; the accumulator is the list
  being appended to.
\<close>

function parse_loop :: "int list \<Rightarrow> nat \<Rightarrow> interval list \<Rightarrow> py_error + interval list" where
  "parse_loop timestamps i intervals =
     (if i < length timestamps then
        (if i + 1 < length timestamps then
           (case py_get timestamps i of
              Inl err \<Rightarrow> Inl err
            | Inr start \<Rightarrow>
                (case py_get timestamps (i + 1) of
                   Inl err \<Rightarrow> Inl err
                 | Inr fin \<Rightarrow>
                     if start < fin
                     then parse_loop timestamps (i + 2) (intervals @ [(start, fin)])
                     else parse_loop timestamps (i + 2) intervals))
         else parse_loop timestamps (i + 2) intervals)
      else Inr intervals)"
  by pat_completeness auto
termination
  by (relation "measure (\<lambda>(timestamps, i, intervals). length timestamps - i)") auto

declare parse_loop.simps [simp del]

definition parse_timestamps_to_intervals :: "int list \<Rightarrow> py_error + interval list" where
  "parse_timestamps_to_intervals timestamps = parse_loop timestamps 0 []"

section \<open>The interval clipper\<close>

text \<open>
  \<^verbatim>\<open>
  clipped_intervals = []
  for start, end in intervals:
      effective_start = max(start, lesson_start)
      effective_end = min(end, lesson_end)
      if effective_start < effective_end:
          clipped_intervals.append((effective_start, effective_end))
  return clipped_intervals
  \<close>
  Iteration over the elements of a list cannot raise, so the clipper is a pure function.
  The source's variable \<^verbatim>\<open>end\<close> is written \<open>fin\<close> throughout.
\<close>

fun clip_loop :: "interval list \<Rightarrow> int \<Rightarrow> int \<Rightarrow> interval list \<Rightarrow> interval list" where
  "clip_loop [] lesson_start lesson_end clipped_intervals = clipped_intervals"
| "clip_loop ((start, fin) # rest) lesson_start lesson_end clipped_intervals =
     (let effective_start = max start lesson_start;
          effective_end = min fin lesson_end
      in if effective_start < effective_end
         then clip_loop rest lesson_start lesson_end
                (clipped_intervals @ [(effective_start, effective_end)])
         else clip_loop rest lesson_start lesson_end clipped_intervals)"

definition clip_intervals_to_lesson :: "interval list \<Rightarrow> int \<Rightarrow> int \<Rightarrow> interval list" where
  "clip_intervals_to_lesson intervals lesson_start lesson_end =
     clip_loop intervals lesson_start lesson_end []"

section \<open>The overlap accumulator\<close>

text \<open>
  The nested loops that collect the pairwise intersections:
  \<^verbatim>\<open>
  for r1_start, r1_end in intervals1:
      for r2_start, r2_end in intervals2:
          overlap_start = max(r1_start, r2_start)
          overlap_end = min(r1_end, r2_end)
          if overlap_start < overlap_end:
              common_segments.append((overlap_start, overlap_end))
  \<close>
\<close>

fun inner_loop :: "interval \<Rightarrow> interval list \<Rightarrow> interval list \<Rightarrow> interval list" where
  "inner_loop (r1_start, r1_end) [] common_segments = common_segments"
| "inner_loop (r1_start, r1_end) ((r2_start, r2_end) # rest) common_segments =
     (let overlap_start = max r1_start r2_start;
          overlap_end = min r1_end r2_end
      in if overlap_start < overlap_end
         then inner_loop (r1_start, r1_end) rest
                (common_segments @ [(overlap_start, overlap_end)])
         else inner_loop (r1_start, r1_end) rest common_segments)"

fun outer_loop :: "interval list \<Rightarrow> interval list \<Rightarrow> interval list \<Rightarrow> interval list" where
  "outer_loop [] intervals2 common_segments = common_segments"
| "outer_loop (r1 # rest) intervals2 common_segments =
     outer_loop rest intervals2 (inner_loop r1 intervals2 common_segments)"

text \<open>
  The merge sweep over the sorted segments, by index from 1:
  \<^verbatim>\<open>
  for i in range(1, len(common_segments)):
      next_start, next_end = common_segments[i]
      if next_start < current_merged_end:
          current_merged_end = max(current_merged_end, next_end)
      else:
          merged_segments.append((current_merged_start, current_merged_end))
          current_merged_start, current_merged_end = next_start, next_end
  \<close>
  The loop state is the list of flushed segments and the running segment.
\<close>

function merge_loop ::
  "interval list \<Rightarrow> nat \<Rightarrow> interval list \<Rightarrow> int \<Rightarrow> int \<Rightarrow> py_error + (interval list \<times> int \<times> int)" where
  "merge_loop common_segments i merged_segments current_merged_start current_merged_end =
     (if i < length common_segments then
        (case py_get common_segments i of
           Inl err \<Rightarrow> Inl err
         | Inr (next_start, next_end) \<Rightarrow>
             if next_start < current_merged_end
             then merge_loop common_segments (i + 1) merged_segments
                    current_merged_start (max current_merged_end next_end)
             else merge_loop common_segments (i + 1)
                    (merged_segments @ [(current_merged_start, current_merged_end)])
                    next_start next_end)
      else Inr (merged_segments, current_merged_start, current_merged_end))"
  by pat_completeness auto
termination
  by (relation "measure (\<lambda>(common_segments, i, merged_segments, s, e). length common_segments - i)")
     auto

declare merge_loop.simps [simp del]

text \<open>
  \<^verbatim>\<open>
  total_duration = 0
  for start, end in merged_segments:
      total_duration += (end - start)
  \<close>
\<close>

fun sum_loop :: "interval list \<Rightarrow> int \<Rightarrow> int" where
  "sum_loop [] total_duration = total_duration"
| "sum_loop ((start, fin) # rest) total_duration = sum_loop rest (total_duration + (fin - start))"

text \<open>
  \<^verbatim>\<open>common_segments.sort(key=lambda x: x[0])\<close> is a stable sort on the first component;
  \<^const>\<open>sort_key\<close> is stable too, so the sorted list is the same list.
\<close>

definition calculate_overlap_duration :: "interval list \<Rightarrow> interval list \<Rightarrow> py_error + int" where
  "calculate_overlap_duration intervals1 intervals2 =
     (let common_segments = outer_loop intervals1 intervals2 []
      in if common_segments = [] then Inr 0
         else
           let sorted_segments = sort_key fst common_segments
           in case py_get sorted_segments 0 of
                Inl err \<Rightarrow> Inl err
              | Inr (current_merged_start, current_merged_end) \<Rightarrow>
                  (case merge_loop sorted_segments 1 [] current_merged_start current_merged_end of
                     Inl err \<Rightarrow> Inl err
                   | Inr (merged_segments, last_start, last_end) \<Rightarrow>
                       Inr (sum_loop (merged_segments @ [(last_start, last_end)]) 0)))"

section \<open>The orchestrator\<close>

definition appearance :: "(string \<rightharpoonup> int list) \<Rightarrow> py_error + int" where
  "appearance intervals_data =
     (let lesson_times = dict_get intervals_data ''lesson'' [];
          pupil_times = dict_get intervals_data ''pupil'' [];
          tutor_times = dict_get intervals_data ''tutor'' []
      in if lesson_times = [] \<or> length lesson_times < 2 then Inr 0
         else
           case py_get lesson_times 0 of
             Inl err \<Rightarrow> Inl err
           | Inr lesson_start \<Rightarrow>
           (case py_get lesson_times 1 of
             Inl err \<Rightarrow> Inl err
           | Inr lesson_end \<Rightarrow>
               if lesson_start \<ge> lesson_end then Inr 0
               else
                 case parse_timestamps_to_intervals pupil_times of
                   Inl err \<Rightarrow> Inl err
                 | Inr pupil_intervals_raw \<Rightarrow>
                 (case parse_timestamps_to_intervals tutor_times of
                   Inl err \<Rightarrow> Inl err
                 | Inr tutor_intervals_raw \<Rightarrow>
                     let pupil_effective_intervals =
                           clip_intervals_to_lesson pupil_intervals_raw lesson_start lesson_end;
                         tutor_effective_intervals =
                           clip_intervals_to_lesson tutor_intervals_raw lesson_start lesson_end
                     in if pupil_effective_intervals = [] \<or> tutor_effective_intervals = []
                        then Inr 0
                        else calculate_overlap_duration
                               pupil_effective_intervals tutor_effective_intervals)))"

section \<open>Functional views of the loops\<close>

text \<open>
  The definitions below are not part of the program. They describe what each loop
  computes, and every one of them is connected to its loop by a lemma.
\<close>

text \<open>What the parser's loop collects from a list read two elements at a time.\<close>

fun pairs :: "int list \<Rightarrow> interval list" where
  "pairs (a # b # rest) = (if a < b then (a, b) # pairs rest else pairs rest)"
| "pairs [a] = []"
| "pairs [] = []"

definition proper :: "interval \<Rightarrow> bool" where
  "proper iv = (fst iv < snd iv)"

definition clipped :: "int \<Rightarrow> int \<Rightarrow> interval \<Rightarrow> interval" where
  "clipped L U iv = (max (fst iv) L, min (snd iv) U)"

definition isect :: "interval \<Rightarrow> interval \<Rightarrow> interval" where
  "isect a b = (max (fst a) (fst b), min (snd a) (snd b))"

text \<open>
  The total that the merge sweep followed by the summation yields, from the running
  segment \<open>(cs, ce)\<close> and the segments still to be read.
\<close>

fun sweep :: "int \<Rightarrow> int \<Rightarrow> interval list \<Rightarrow> int" where
  "sweep cs ce [] = ce - cs"
| "sweep cs ce ((s, e) # rest) =
     (if s < ce then sweep cs (max ce e) rest else (ce - cs) + sweep s e rest)"

text \<open>The time points that a list of half-open intervals covers.\<close>

definition cover :: "interval list \<Rightarrow> int set" where
  "cover xs = (\<Union>iv\<in>set xs. {fst iv..<snd iv})"

section \<open>The specified measure\<close>

text \<open>
  This definition follows the specification, not the code: the set of time points that
  lie in the intersection of some interval of \<open>A\<close> with some interval of \<open>B\<close>, intervals
  being half-open. Timestamps are integers, so the set is a union of unit cells
  \<open>[t, t + 1)\<close> and its duration is the number of integers in it; a point covered by
  several pairs is one element of the set and is counted once.
\<close>

definition covered_points :: "interval list \<Rightarrow> interval list \<Rightarrow> int set" where
  "covered_points A B = (\<Union>a\<in>set A. \<Union>b\<in>set B. {fst a..<snd a} \<inter> {fst b..<snd b})"

section \<open>The loops compute their functional views\<close>

lemma parse_loop_pairs: "parse_loop ts i acc = Inr (acc @ pairs (drop i ts))"
proof (induction ts i acc rule: parse_loop.induct)
  case (1 ts i acc)
  show ?case
  proof (cases "i < length ts")
    case False
    then show ?thesis by (simp add: parse_loop.simps [of ts i acc])
  next
    case True
    show ?thesis
    proof (cases "i + 1 < length ts")
      case False
      with True have d: "drop i ts = [ts ! i]"
        by (metis Cons_nth_drop_Suc Suc_eq_plus1 drop_all not_less)
      from False have "drop (i + 2) ts = []" by simp
      with "1.IH"(3) [OF True False] have "parse_loop ts (i + 2) acc = Inr acc" by simp
      with True False d show ?thesis by (simp add: parse_loop.simps [of ts i acc])
    next
      case T2: True
      have d: "drop i ts = ts ! i # ts ! (i + 1) # drop (i + 2) ts"
        using True T2 by (metis Cons_nth_drop_Suc Suc_eq_plus1 add_2_eq_Suc')
      have g1: "py_get ts i = Inr (ts ! i)" using True by (simp add: py_get_def)
      have g2: "py_get ts (i + 1) = Inr (ts ! (i + 1))" using T2 by (simp add: py_get_def)
      show ?thesis
      proof (cases "ts ! i < ts ! (i + 1)")
        case lt: True
        from "1.IH"(1) [OF True T2 g1 g2 lt] True T2 g1 g2 lt d show ?thesis
          by (simp add: parse_loop.simps [of ts i acc])
      next
        case ge: False
        from "1.IH"(2) [OF True T2 g1 g2 ge] True T2 g1 g2 ge d show ?thesis
          by (simp add: parse_loop.simps [of ts i acc])
      qed
    qed
  qed
qed

lemma parse_is_pairs: "parse_timestamps_to_intervals ts = Inr (pairs ts)"
  by (simp add: parse_timestamps_to_intervals_def parse_loop_pairs)

lemma pairs_index:
  "pairs ts = filter proper (map (\<lambda>k. (ts ! (2 * k), ts ! (2 * k + 1))) [0..<length ts div 2])"
proof (induction ts rule: pairs.induct)
  case (1 a b rest)
  have "[0..<length (a # b # rest) div 2] = 0 # map Suc [0..<length rest div 2]"
    by (simp add: upt_conv_Cons map_Suc_upt del: upt_Suc)
  then show ?case using 1 by (simp add: proper_def comp_def)
qed simp_all

lemma pairs_trailing: "even (length ts) \<Longrightarrow> pairs (ts @ [x]) = pairs ts"
  by (induction ts rule: pairs.induct) simp_all

lemma clip_loop_filter:
  "clip_loop xs L U acc = acc @ filter proper (map (clipped L U) xs)"
  by (induction xs L U acc rule: clip_loop.induct) (simp_all add: clipped_def proper_def Let_def)

lemma clip_is_filter: "clip_intervals_to_lesson xs L U = filter proper (map (clipped L U) xs)"
  by (simp add: clip_intervals_to_lesson_def clip_loop_filter)

lemma clip_bounds:
  "iv \<in> set (clip_intervals_to_lesson xs L U) \<Longrightarrow> L \<le> fst iv \<and> snd iv \<le> U \<and> fst iv < snd iv"
  by (auto simp: clip_is_filter clipped_def proper_def)

lemma inner_loop_filter:
  "inner_loop a ys acc = acc @ filter proper (map (isect a) ys)"
  by (induction a ys acc rule: inner_loop.induct) (simp_all add: isect_def proper_def Let_def)

lemma outer_loop_concat:
  "outer_loop xs ys acc = acc @ concat (map (\<lambda>a. filter proper (map (isect a) ys)) xs)"
  by (induction xs ys acc rule: outer_loop.induct) (simp_all add: inner_loop_filter)

lemma sum_loop_sum: "sum_loop xs t = t + (\<Sum>iv\<leftarrow>xs. snd iv - fst iv)"
  by (induction xs t rule: sum_loop.induct) simp_all

text \<open>
  The merge loop never indexes out of range, and the sum of what it leaves behind is the
  sum of what was flushed before plus the sweep of the remaining segments.
\<close>

lemma merge_loop_sweep:
  "i \<le> length segs \<Longrightarrow>
   \<exists>m s e. merge_loop segs i acc cs ce = Inr (m, s, e) \<and>
     sum_loop (m @ [(s, e)]) 0 = sum_loop acc 0 + sweep cs ce (drop i segs)"
proof (induction segs i acc cs ce rule: merge_loop.induct)
  case (1 segs i acc cs ce)
  show ?case
  proof (cases "i < length segs")
    case False
    then have "merge_loop segs i acc cs ce = Inr (acc, cs, ce)"
      by (simp add: merge_loop.simps [of segs i acc cs ce])
    moreover from False "1.prems" have "drop i segs = []" by simp
    ultimately show ?thesis by (simp add: sum_loop_sum)
  next
    case True
    obtain ns ne where ne: "segs ! i = (ns, ne)" by (cases "segs ! i")
    have g: "py_get segs i = Inr (ns, ne)" using True ne by (simp add: py_get_def)
    have d: "drop i segs = (ns, ne) # drop (i + 1) segs"
      using True ne by (metis Cons_nth_drop_Suc Suc_eq_plus1)
    have le: "i + 1 \<le> length segs" using True by simp
    show ?thesis
    proof (cases "ns < ce")
      case lt: True
      from "1.IH"(1) [OF True g refl lt le] True g lt d show ?thesis
        by (simp add: merge_loop.simps [of segs i acc cs ce])
    next
      case ge: False
      from "1.IH"(2) [OF True g refl ge le]
      obtain m s e where
        "merge_loop segs (i + 1) (acc @ [(cs, ce)]) ns ne = Inr (m, s, e)"
        "sum_loop (m @ [(s, e)]) 0 =
           sum_loop (acc @ [(cs, ce)]) 0 + sweep ns ne (drop (i + 1) segs)"
        by blast
      with True g ge d show ?thesis
        by (simp add: merge_loop.simps [of segs i acc cs ce] sum_loop_sum algebra_simps)
    qed
  qed
qed

section \<open>The sweep measures the covered set\<close>

lemma finite_cover: "finite (cover xs)"
  by (simp add: cover_def)

lemma cover_Cons: "cover (x # xs) = {fst x..<snd x} \<union> cover xs"
  by (simp add: cover_def)

lemma cover_lower: "\<forall>iv\<in>set xs. c \<le> fst iv \<Longrightarrow> t \<in> cover xs \<Longrightarrow> c \<le> t"
  by (auto simp: cover_def)

lemma cover_sort_key: "cover (sort_key f xs) = cover xs"
  by (simp add: cover_def)

text \<open>
  On segments sorted by start, a segment that starts inside the running one extends it,
  and a segment that starts at or after its end is disjoint from it, as is everything
  that follows.
\<close>

lemma sweep_card:
  "sorted (map fst xs) \<Longrightarrow> \<forall>iv\<in>set xs. cs \<le> fst iv \<Longrightarrow>
   \<forall>iv\<in>set xs. fst iv \<le> snd iv \<Longrightarrow> cs \<le> ce \<Longrightarrow>
   sweep cs ce xs = int (card ({cs..<ce} \<union> cover xs))"
proof (induction xs arbitrary: cs ce)
  case Nil
  then show ?case by (simp add: cover_def)
next
  case (Cons x xs)
  obtain s e where x: "x = (s, e)" by (cases x)
  from Cons.prems x have low: "\<forall>iv\<in>set xs. s \<le> fst iv" and srt: "sorted (map fst xs)"
    and wf: "\<forall>iv\<in>set xs. fst iv \<le> snd iv" and se: "s \<le> e" and css: "cs \<le> s"
    by auto
  show ?case
  proof (cases "s < ce")
    case True
    have low': "\<forall>iv\<in>set xs. cs \<le> fst iv" using low css by auto
    have "cs \<le> max ce e" using Cons.prems(4) by simp
    from Cons.IH [OF srt low' wf this]
    have "sweep cs (max ce e) xs = int (card ({cs..<max ce e} \<union> cover xs))" .
    moreover have "{cs..<max ce e} = {cs..<ce} \<union> {s..<e}" using True css by auto
    ultimately show ?thesis using True x by (simp add: cover_Cons Un_assoc)
  next
    case False
    from Cons.IH [OF srt low wf se]
    have ih: "sweep s e xs = int (card ({s..<e} \<union> cover xs))" .
    have disj: "{cs..<ce} \<inter> ({s..<e} \<union> cover xs) = {}"
      using False cover_lower [OF low] by fastforce
    have "card ({cs..<ce} \<union> ({s..<e} \<union> cover xs)) =
        card {cs..<ce} + card ({s..<e} \<union> cover xs)"
      by (rule card_Un_disjoint) (simp_all add: finite_cover disj)
    with ih False x Cons.prems(4) show ?thesis by (simp add: cover_Cons)
  qed
qed

lemma sorted_cover_total:
  assumes srt: "sorted (map fst (x # xs))" and wf: "\<forall>iv\<in>set (x # xs). fst iv \<le> snd iv"
  shows "\<exists>m s e. merge_loop (x # xs) 1 [] (fst x) (snd x) = Inr (m, s, e) \<and>
     sum_loop (m @ [(s, e)]) 0 = int (card (cover (x # xs)))"
proof -
  from merge_loop_sweep [of 1 "x # xs" "[]" "fst x" "snd x"]
  obtain m s e where m: "merge_loop (x # xs) 1 [] (fst x) (snd x) = Inr (m, s, e)"
    and t: "sum_loop (m @ [(s, e)]) 0 = sweep (fst x) (snd x) xs"
    by auto
  have "sweep (fst x) (snd x) xs = int (card ({fst x..<snd x} \<union> cover xs))"
    using srt wf by (intro sweep_card) auto
  with m t show ?thesis by (simp add: cover_Cons)
qed

section \<open>The accumulator computes the specified measure\<close>

lemma covered_points_iff:
  "t \<in> covered_points A B \<longleftrightarrow>
     (\<exists>a\<in>set A. \<exists>b\<in>set B. fst a \<le> t \<and> t < snd a \<and> fst b \<le> t \<and> t < snd b)"
  unfolding covered_points_def UN_iff Int_iff atLeastLessThan_iff by blast

lemma finite_covered_points: "finite (covered_points A B)"
  by (simp add: covered_points_def)

lemma covered_points_commute: "covered_points A B = covered_points B A"
  unfolding set_eq_iff covered_points_iff by blast

lemma covered_points_Nil: "covered_points [] B = {}" "covered_points A [] = {}"
  by (simp_all add: covered_points_def)

lemma covered_points_mono:
  assumes "\<forall>a\<in>set A. \<exists>a'\<in>set A'. fst a' \<le> fst a \<and> snd a \<le> snd a'"
  shows "covered_points A B \<subseteq> covered_points A' B"
proof
  fix t assume "t \<in> covered_points A B"
  then obtain a b where a: "a \<in> set A" and b: "b \<in> set B"
    and t: "fst a \<le> t" "t < snd a" "fst b \<le> t" "t < snd b"
    unfolding covered_points_iff by blast
  from assms a obtain a' where a': "a' \<in> set A'" "fst a' \<le> fst a" "snd a \<le> snd a'"
    by blast
  with t have "fst a' \<le> t" "t < snd a'" by simp_all
  with a' b t show "t \<in> covered_points A' B" unfolding covered_points_iff by blast
qed

lemma covered_points_bounded:
  assumes "\<forall>a\<in>set A. L \<le> fst a \<and> snd a \<le> U"
  shows "covered_points A B \<subseteq> {L..<U}"
proof
  fix t assume "t \<in> covered_points A B"
  then obtain a where "a \<in> set A" "fst a \<le> t" "t < snd a"
    unfolding covered_points_iff by blast
  with assms have "L \<le> t" "t < U" by fastforce+
  then show "t \<in> {L..<U}" by simp
qed

lemma cover_common: "cover (outer_loop A B []) = covered_points A B"
proof -
  have "t \<in> cover (outer_loop A B []) \<longleftrightarrow> t \<in> covered_points A B" for t
  proof -
    have "t \<in> cover (outer_loop A B []) \<longleftrightarrow>
        (\<exists>a\<in>set A. \<exists>b\<in>set B.
           proper (isect a b) \<and> fst (isect a b) \<le> t \<and> t < snd (isect a b))"
      by (auto simp: cover_def outer_loop_concat)
    also have "\<dots> \<longleftrightarrow>
        (\<exists>a\<in>set A. \<exists>b\<in>set B. fst a \<le> t \<and> t < snd a \<and> fst b \<le> t \<and> t < snd b)"
      by (intro bex_cong refl) (auto simp: isect_def proper_def)
    also have "\<dots> \<longleftrightarrow> t \<in> covered_points A B"
      by (simp only: covered_points_iff)
    finally show ?thesis .
  qed
  then show ?thesis by blast
qed

lemma common_proper: "\<forall>iv\<in>set (outer_loop A B []). fst iv \<le> snd iv"
  by (auto simp: outer_loop_concat proper_def)

lemma overlap_duration_card:
  "calculate_overlap_duration A B = Inr (int (card (covered_points A B)))"
proof (cases "outer_loop A B [] = []")
  case True
  then have "cover (outer_loop A B []) = {}" by (simp add: cover_def)
  then have "covered_points A B = {}" by (simp add: cover_common)
  with True show ?thesis by (simp add: calculate_overlap_duration_def)
next
  case False
  define segs where "segs = sort_key fst (outer_loop A B [])"
  from False have "segs \<noteq> []" unfolding segs_def by (metis length_0_conv length_sort)
  then obtain x xs where segs: "segs = x # xs" by (cases segs) auto
  have srt: "sorted (map fst (x # xs))" unfolding segs [symmetric] segs_def by simp
  have wf: "\<forall>iv\<in>set (x # xs). fst iv \<le> snd iv"
    unfolding segs [symmetric] segs_def using common_proper [of A B] by simp
  from sorted_cover_total [OF srt wf]
  obtain m s e where m: "merge_loop (x # xs) 1 [] (fst x) (snd x) = Inr (m, s, e)"
    and t: "sum_loop (m @ [(s, e)]) 0 = int (card (cover (x # xs)))"
    by blast
  have c: "cover (x # xs) = covered_points A B"
    unfolding segs [symmetric] segs_def by (simp add: cover_sort_key cover_common)
  obtain s0 e0 where x: "x = (s0, e0)" by (cases x)
  from m t c False segs show ?thesis
    by (simp add: calculate_overlap_duration_def segs_def [symmetric] py_get_def x)
qed

section \<open>The claims\<close>

text \<open>
  C1. For the lesson \<open>[1594663200, 1594666800]\<close>, the pupil
  \<open>[1594663340, 1594663389, 1594663390, 1594663395, 1594663396, 1594666472]\<close> and the
  tutor \<open>[1594663290, 1594663430, 1594663443, 1594666473]\<close>, the orchestrator returns
  exactly 3117.
\<close>

theorem appearance_first_example:
  "appearance
     [''lesson'' \<mapsto> [1594663200, 1594666800],
      ''pupil'' \<mapsto> [1594663340, 1594663389, 1594663390, 1594663395, 1594663396, 1594666472],
      ''tutor'' \<mapsto> [1594663290, 1594663430, 1594663443, 1594666473]] = Inr 3117"
  by code_simp

text \<open>
  C2. For every two interval lists, the overlap accumulator returns normally a
  non-negative integer: the duration of the set of time points covered by at least one
  intersection of an interval of the first list with an interval of the second, every
  point counted once. The set is finite, so its number of elements is its duration.
  When either list is empty the result is 0.
\<close>

theorem overlap_duration_measures_covered_points:
  "finite (covered_points A B) \<and>
   (\<exists>n. calculate_overlap_duration A B = Inr n \<and> 0 \<le> n \<and>
        n = int (card (covered_points A B))) \<and>
   calculate_overlap_duration [] B = Inr 0 \<and>
   calculate_overlap_duration A [] = Inr 0"
  by (simp add: overlap_duration_card finite_covered_points covered_points_Nil)

text \<open>
  An instance where three pairwise intersections \<open>[15, 20)\<close>, \<open>[20, 25)\<close> and
  \<open>[18, 22)\<close> touch and overlap: the code returns 10, hence the covered set has 10
  points.
\<close>

theorem overlap_duration_measures_covered_points_witness:
  "calculate_overlap_duration [(10, 30)] [(15, 20), (20, 25), (18, 22)] = Inr 10 \<and>
   card (covered_points [(10, 30)] [(15, 20), (20, 25), (18, 22)]) = 10"
proof -
  have "calculate_overlap_duration [(10, 30)] [(15, 20), (20, 25), (18, 22)] = Inr 10"
    by code_simp
  with overlap_duration_measures_covered_points [of "[(10, 30)]" "[(15, 20), (20, 25), (18, 22)]"]
  show ?thesis by simp
qed

text \<open>
  C3. For every input dictionary from strings to integer lists (any of the three keys
  absent, lists of odd length, inverted or empty pairs), the orchestrator returns an
  integer: no index is ever read out of range, so nothing is raised.
\<close>

theorem appearance_never_raises: "\<exists>n. appearance intervals_data = Inr n"
  by (simp add: appearance_def Let_def py_get_def parse_is_pairs overlap_duration_card)

text \<open>
  An input with no \<open>tutor\<close> key, a pupil list of odd length and an inverted pair.
\<close>

theorem appearance_never_raises_witness:
  "appearance [''lesson'' \<mapsto> [0, 100, 7], ''pupil'' \<mapsto> [10, 5, 20, 30, 40]] = Inr 0"
proof -
  have "appearance [''lesson'' \<mapsto> [0, 100, 7], ''pupil'' \<mapsto> [10, 5, 20, 30, 40]] = Inr 0"
    by code_simp
  with appearance_never_raises [of "[''lesson'' \<mapsto> [0, 100, 7], ''pupil'' \<mapsto> [10, 5, 20, 30, 40]]"]
  show ?thesis by simp
qed

text \<open>
  C4. If the lesson list (the empty list when the key is absent) has fewer than two
  elements, or its first element is not below its second, the orchestrator returns 0,
  whatever the pupil and tutor lists are.
\<close>

theorem appearance_invalid_lesson:
  assumes "length (dict_get intervals_data ''lesson'' []) < 2 \<or>
    (2 \<le> length (dict_get intervals_data ''lesson'' []) \<and>
     dict_get intervals_data ''lesson'' [] ! 1 \<le> dict_get intervals_data ''lesson'' [] ! 0)"
  shows "appearance intervals_data = Inr 0"
  using assms by (auto simp: appearance_def Let_def py_get_def)

theorem appearance_invalid_lesson_witness:
  "appearance [''lesson'' \<mapsto> [5], ''pupil'' \<mapsto> [0, 100], ''tutor'' \<mapsto> [0, 100]] = Inr 0 \<and>
   appearance [''lesson'' \<mapsto> [0, 0], ''pupil'' \<mapsto> [0, 10], ''tutor'' \<mapsto> [0, 10]] = Inr 0 \<and>
   appearance [''pupil'' \<mapsto> [0, 10], ''tutor'' \<mapsto> [0, 10]] = Inr 0"
proof -
  have a: "length (dict_get [''lesson'' \<mapsto> [5::int], ''pupil'' \<mapsto> [0, 100], ''tutor'' \<mapsto> [0, 100]]
      ''lesson'' []) < 2"
    by (simp add: dict_get_def)
  have b: "2 \<le> length (dict_get [''lesson'' \<mapsto> [0::int, 0], ''pupil'' \<mapsto> [0, 10], ''tutor'' \<mapsto> [0, 10]]
        ''lesson'' []) \<and>
      dict_get [''lesson'' \<mapsto> [0::int, 0], ''pupil'' \<mapsto> [0, 10], ''tutor'' \<mapsto> [0, 10]] ''lesson'' [] ! 1
        \<le> dict_get [''lesson'' \<mapsto> [0::int, 0], ''pupil'' \<mapsto> [0, 10], ''tutor'' \<mapsto> [0, 10]]
            ''lesson'' [] ! 0"
    by (simp add: dict_get_def)
  have c: "length (dict_get [''pupil'' \<mapsto> [0::int, 10], ''tutor'' \<mapsto> [0, 10]] ''lesson'' []) < 2"
    by (simp add: dict_get_def)
  show ?thesis
    using appearance_invalid_lesson [OF disjI1, OF a]
      appearance_invalid_lesson [OF disjI2, OF b]
      appearance_invalid_lesson [OF disjI1, OF c]
    by simp
qed

text \<open>
  C5. For every integer list \<open>t\<close> the parser returns exactly the pairs
  \<open>(t[2i], t[2i+1])\<close> with \<open>t[2i] < t[2i+1]\<close>, in order of increasing \<open>i\<close>; the other
  pairs are discarded without an error, and a trailing unpaired element is dropped, so
  that parsing \<open>[s1, e1, s2, e2, x]\<close> equals parsing \<open>[s1, e1, s2, e2]\<close>.
\<close>

theorem parse_timestamps_to_intervals_spec:
  "parse_timestamps_to_intervals t =
     Inr (filter (\<lambda>(a, b). a < b)
           (map (\<lambda>i. (t ! (2 * i), t ! (2 * i + 1))) [0..<length t div 2])) \<and>
   (even (length t) \<longrightarrow>
      parse_timestamps_to_intervals (t @ [x]) = parse_timestamps_to_intervals t) \<and>
   parse_timestamps_to_intervals [s1, e1, s2, e2, x] =
     parse_timestamps_to_intervals [s1, e1, s2, e2]"
proof -
  have "proper = (\<lambda>(a, b). a < b)" by (auto simp: proper_def)
  then show ?thesis using pairs_index [of t] by (simp add: parse_is_pairs pairs_trailing)
qed

theorem parse_timestamps_to_intervals_spec_witness:
  "parse_timestamps_to_intervals [1, 2, 4, 3, 5, 6] = Inr [(1, 2), (5, 6)] \<and>
   parse_timestamps_to_intervals ([1, 2, 4, 3, 5, 6] @ [7]) =
     parse_timestamps_to_intervals [1, 2, 4, 3, 5, 6]"
proof -
  have ev: "even (length [1, 2, 4, 3, 5, 6 :: int])" by simp
  have "[0..<length [1, 2, 4, 3, 5, 6 :: int] div 2] = [0, 1, 2]" by code_simp
  with parse_timestamps_to_intervals_spec [of "[1, 2, 4, 3, 5, 6]" 7] ev
  show ?thesis by simp
qed

text \<open>
  C6. For every interval list and bounds \<open>L\<close>, \<open>U\<close>, the clipper maps each interval
  \<open>(s, e)\<close> to \<open>(max s L, min e U)\<close>, keeps it only if the clipped start is strictly
  below the clipped end, and preserves the order; hence every output interval
  \<open>(s', e')\<close> satisfies \<open>L \<le> s'\<close>, \<open>e' \<le> U\<close> and \<open>s' < e'\<close>.
\<close>

theorem clip_intervals_to_lesson_spec:
  "clip_intervals_to_lesson xs L U =
     filter (\<lambda>(s, e). s < e) (map (\<lambda>(s, e). (max s L, min e U)) xs) \<and>
   (\<forall>(s', e') \<in> set (clip_intervals_to_lesson xs L U). L \<le> s' \<and> e' \<le> U \<and> s' < e')"
proof -
  have "proper = (\<lambda>(s, e). s < e)" "clipped L U = (\<lambda>(s, e). (max s L, min e U))"
    by (auto simp: proper_def clipped_def)
  then have "clip_intervals_to_lesson xs L U =
     filter (\<lambda>(s, e). s < e) (map (\<lambda>(s, e). (max s L, min e U)) xs)"
    using clip_is_filter [of xs L U] by simp
  moreover have
    "\<forall>(s', e') \<in> set (clip_intervals_to_lesson xs L U). L \<le> s' \<and> e' \<le> U \<and> s' < e'"
    using clip_bounds [of _ xs L U] by fastforce
  ultimately show ?thesis by blast
qed

theorem clip_intervals_to_lesson_spec_witness:
  "clip_intervals_to_lesson [(0, 10), (0, 5), (15, 25), (20, 25), (7, 3)] 5 20 =
     [(5, 10), (15, 20)]"
  using clip_intervals_to_lesson_spec [of "[(0, 10), (0, 5), (15, 25), (20, 25), (7, 3)]" 5 20]
  by simp

text \<open>
  C7. The accumulated overlap duration is symmetric in its two interval lists.
\<close>

theorem overlap_duration_symmetric:
  "calculate_overlap_duration A B = calculate_overlap_duration B A"
  by (simp add: overlap_duration_card covered_points_commute [of A B])

theorem overlap_duration_symmetric_witness:
  "calculate_overlap_duration [(10, 20), (30, 40)] [(15, 35)] = Inr 10 \<and>
   calculate_overlap_duration [(15, 35)] [(10, 20), (30, 40)] = Inr 10"
proof -
  have "calculate_overlap_duration [(10, 20), (30, 40)] [(15, 35)] = Inr 10" by code_simp
  with overlap_duration_symmetric [of "[(10, 20), (30, 40)]" "[(15, 35)]"]
  show ?thesis by simp
qed

text \<open>
  C8. Replacing one interval \<open>(s, e)\<close> of the first list by a wider interval
  \<open>(s', e')\<close>, with \<open>s' \<le> s\<close> and \<open>e \<le> e'\<close>, does not decrease the accumulated overlap
  duration.
\<close>

theorem overlap_duration_monotone:
  assumes i: "i < length A" and Ai: "A ! i = (s, e)" and s: "s' \<le> s" and e: "e \<le> e'"
  shows "\<exists>m n. calculate_overlap_duration A B = Inr m \<and>
           calculate_overlap_duration (A[i := (s', e')]) B = Inr n \<and> m \<le> n"
proof -
  have "\<exists>a'\<in>set (A[i := (s', e')]). fst a' \<le> fst a \<and> snd a \<le> snd a'" if "a \<in> set A" for a
  proof -
    from that obtain j where j: "j < length A" "A ! j = a" by (auto simp: in_set_conv_nth)
    show ?thesis
    proof (cases "j = i")
      case True
      with j Ai s e have "fst (s', e') \<le> fst a \<and> snd a \<le> snd (s', e')" by auto
      moreover from i have "(s', e') \<in> set (A[i := (s', e')])" by (rule set_update_memI)
      ultimately show ?thesis by blast
    next
      case False
      with j have "A[i := (s', e')] ! j = a" "j < length (A[i := (s', e')])" by simp_all
      then have "a \<in> set (A[i := (s', e')])" by (metis nth_mem)
      then show ?thesis by auto
    qed
  qed
  then have "covered_points A B \<subseteq> covered_points (A[i := (s', e')]) B"
    by (intro covered_points_mono) blast
  then have "card (covered_points A B) \<le> card (covered_points (A[i := (s', e')]) B)"
    by (intro card_mono finite_covered_points)
  then show ?thesis by (simp add: overlap_duration_card)
qed

theorem overlap_duration_monotone_witness:
  "calculate_overlap_duration [(10, 20), (30, 40)] [(15, 35)] = Inr 10 \<and>
   calculate_overlap_duration ([(10, 20), (30, 40)][0 := (5, 25)]) [(15, 35)] = Inr 15 \<and>
   (10 :: int) \<le> 15"
proof -
  have h1: "0 < length [(10, 20), (30, 40 :: int)]" by simp
  have h2: "[(10, 20), (30, 40)] ! 0 = (10 :: int, 20 :: int)" by simp
  have h3: "(5 :: int) \<le> 10" by simp
  have h4: "(20 :: int) \<le> 25" by simp
  have v1: "calculate_overlap_duration [(10, 20), (30, 40)] [(15, 35)] = Inr 10" by code_simp
  have v2: "calculate_overlap_duration ([(10, 20), (30, 40)][0 := (5, 25)]) [(15, 35)] = Inr 15"
    by code_simp
  from overlap_duration_monotone [OF h1 h2 h3 h4, of "[(15, 35)]"] v1 v2
  show ?thesis by simp
qed

text \<open>
  C9. Clipping is idempotent: clipping the output of the clipper to the same bounds
  returns that output unchanged.
\<close>

theorem clip_intervals_to_lesson_idempotent:
  "clip_intervals_to_lesson (clip_intervals_to_lesson xs L U) L U =
     clip_intervals_to_lesson xs L U"
proof -
  have "filter proper (map (clipped L U) ys) = ys"
    if "\<forall>iv\<in>set ys. L \<le> fst iv \<and> snd iv \<le> U \<and> fst iv < snd iv" for ys
    using that by (induction ys) (auto simp: proper_def clipped_def)
  then show ?thesis
    using clip_bounds [of _ xs L U]
    by (simp add: clip_is_filter [of "clip_intervals_to_lesson xs L U"])
qed

theorem clip_intervals_to_lesson_idempotent_witness:
  "clip_intervals_to_lesson (clip_intervals_to_lesson [(0, 10), (15, 25), (0, 5)] 5 20) 5 20 =
     [(5, 10), (15, 20)]"
proof -
  have "clip_intervals_to_lesson [(0, 10), (15, 25), (0, 5)] 5 20 = [(5, 10), (15, 20)]"
    by code_simp
  with clip_intervals_to_lesson_idempotent [of "[(0, 10), (15, 25), (0, 5)]" 5 20]
  show ?thesis by simp
qed

text \<open>
  C10. When the lesson list has at least two elements and its first element is below
  its second, the result of the orchestrator is at least 0 and at most the lesson
  duration, the second element minus the first.
\<close>

theorem appearance_bounded_by_lesson:
  assumes len: "2 \<le> length (dict_get intervals_data ''lesson'' [])"
    and lt: "dict_get intervals_data ''lesson'' [] ! 0 < dict_get intervals_data ''lesson'' [] ! 1"
  shows "\<exists>n. appearance intervals_data = Inr n \<and> 0 \<le> n \<and>
           n \<le> dict_get intervals_data ''lesson'' [] ! 1 - dict_get intervals_data ''lesson'' [] ! 0"
proof -
  define L where "L = dict_get intervals_data ''lesson'' [] ! 0"
  define U where "U = dict_get intervals_data ''lesson'' [] ! 1"
  have "card (covered_points (clip_intervals_to_lesson xs L U) ys) \<le> nat (U - L)" for xs ys
  proof -
    have "covered_points (clip_intervals_to_lesson xs L U) ys \<subseteq> {L..<U}"
      using clip_bounds [of _ xs L U] by (intro covered_points_bounded) blast
    then have "card (covered_points (clip_intervals_to_lesson xs L U) ys) \<le> card {L..<U}"
      by (intro card_mono) simp_all
    then show ?thesis by simp
  qed
  moreover have "0 \<le> U - L" using lt by (simp add: L_def U_def)
  ultimately have "int (card (covered_points (clip_intervals_to_lesson xs L U) ys)) \<le> U - L"
    for xs ys
    by (simp add: le_nat_iff)
  moreover from len have "dict_get intervals_data ''lesson'' [] \<noteq> []" by auto
  ultimately show ?thesis using len lt
    by (simp add: appearance_def Let_def py_get_def parse_is_pairs overlap_duration_card
        L_def U_def)
qed

text \<open>
  The pupil and the tutor both cover the whole lesson \<open>[10, 20)\<close>: the bound is reached.
\<close>

theorem appearance_bounded_by_lesson_witness:
  "appearance [''lesson'' \<mapsto> [10, 20], ''pupil'' \<mapsto> [0, 30], ''tutor'' \<mapsto> [5, 25]] = Inr 10 \<and>
   (10 :: int) \<le> 20 - 10"
proof -
  have len: "2 \<le> length (dict_get [''lesson'' \<mapsto> [10 :: int, 20], ''pupil'' \<mapsto> [0, 30],
      ''tutor'' \<mapsto> [5, 25]] ''lesson'' [])"
    by (simp add: dict_get_def)
  have lt: "dict_get [''lesson'' \<mapsto> [10 :: int, 20], ''pupil'' \<mapsto> [0, 30], ''tutor'' \<mapsto> [5, 25]]
        ''lesson'' [] ! 0
      < dict_get [''lesson'' \<mapsto> [10 :: int, 20], ''pupil'' \<mapsto> [0, 30], ''tutor'' \<mapsto> [5, 25]]
        ''lesson'' [] ! 1"
    by (simp add: dict_get_def)
  have v: "appearance [''lesson'' \<mapsto> [10, 20], ''pupil'' \<mapsto> [0, 30], ''tutor'' \<mapsto> [5, 25]] = Inr 10"
    by code_simp
  from appearance_bounded_by_lesson [OF len lt] v show ?thesis by simp
qed

end
